theory Spec2Isabelle
  imports Main "HOL-Library.Word"
begin

unbundle bit_operations_syntax

section \<open>Data model\<close>

text \<open>
  The library \<^verbatim>\<open>stm32g4_uptime.h\<close> keeps one \<^verbatim>\<open>volatile uint32_t\<close> global,
  \<^verbatim>\<open>_uptime_ms_cnt\<close>, and talks to memory-mapped 32-bit registers of the RCC and
  LPTIM1 blocks. Every one of these is a volatile location holding a 32-bit word;
  \<^verbatim>\<open>1000UL\<close> is a 32-bit \<^verbatim>\<open>unsigned long\<close> on the Cortex-M target, so all arithmetic
  of the library is arithmetic of \<open>32 word\<close>.
\<close>

type_synonym u32 = "32 word"

datatype loc =
    uptime_ms_cnt
  | RCC_CR
  | RCC_CCIPR
  | RCC_APB1ENR1
  | RCC_APB1RSTR1
  | LPTIM1_ISR
  | LPTIM1_ICR
  | LPTIM1_IER
  | LPTIM1_CFGR
  | LPTIM1_CR
  | LPTIM1_ARR
  | LPTIM1_CNT

text \<open>
  Accesses to volatile objects are the observable behaviour of a C program, so the
  model records them, in program order: a load with the value it saw, a store with
  the value it wrote, and the two calls into the interrupt controller.
\<close>

datatype access = Rd loc u32 | Wr loc u32 | NvicEnable | NvicDisable

record mcu =
  mem :: "loc \<Rightarrow> u32"
  nvic_lptim1 :: bool
  trace :: "access list"

text \<open>
  The bit masks come from the vendor's device header, which \<^verbatim>\<open>main.h\<close> includes
  and which is not part of the repository. They are parameters of the model: every
  function takes the header, and the theorems hold for any values of the masks.
\<close>

record header =
  RCC_CR_HSION :: u32
  RCC_CR_HSIRDY :: u32
  RCC_CCIPR_LPTIM1SEL :: u32
  RCC_CCIPR_LPTIM1SEL_1 :: u32
  RCC_APB1ENR1_LPTIM1EN :: u32
  RCC_APB1RSTR1_LPTIM1RST :: u32
  LPTIM_CFGR_PRESC_2 :: u32
  LPTIM_IER_ARRMIE :: u32
  LPTIM_CR_ENABLE :: u32
  LPTIM_CR_CNTSTRT :: u32
  LPTIM_ICR_ARRMCF :: u32
  LPTIM_ICR_CMPMCF :: u32

text \<open>
  The values the STM32G4 device header gives these masks. They serve as the concrete
  header wherever a theorem is evaluated at an input.
\<close>

definition stm32g4xx :: header where
  "stm32g4xx = \<lparr>
     RCC_CR_HSION = 0x100,
     RCC_CR_HSIRDY = 0x400,
     RCC_CCIPR_LPTIM1SEL = 0xC0000,
     RCC_CCIPR_LPTIM1SEL_1 = 0x80000,
     RCC_APB1ENR1_LPTIM1EN = 0x80000000,
     RCC_APB1RSTR1_LPTIM1RST = 0x80000000,
     LPTIM_CFGR_PRESC_2 = 0x800,
     LPTIM_IER_ARRMIE = 0x2,
     LPTIM_CR_ENABLE = 0x1,
     LPTIM_CR_CNTSTRT = 0x4,
     LPTIM_ICR_ARRMCF = 0x2,
     LPTIM_ICR_CMPMCF = 0x1 \<rparr>"

definition LPTIM_ARR_VALUE :: u32 where
  "LPTIM_ARR_VALUE = 1000 - 1"

section \<open>Volatile accesses\<close>

definition load :: "loc \<Rightarrow> mcu \<Rightarrow> u32 \<times> mcu" where
  "load l s = (mem s l, s\<lparr>trace := trace s @ [Rd l (mem s l)]\<rparr>)"

text \<open>
  A store replaces the content of the location. The one exception is the interrupt
  clear register of the timer, which is write-only: a one written to a bit of
  \<^verbatim>\<open>LPTIM1->ICR\<close> clears the flag at the same position of the status register
  \<^verbatim>\<open>LPTIM1->ISR\<close> and a zero leaves it alone. This is how the handler acknowledges
  the interrupt.
\<close>

definition store :: "loc \<Rightarrow> u32 \<Rightarrow> mcu \<Rightarrow> mcu" where
  "store l v s =
     s\<lparr>mem := (if l = LPTIM1_ICR
                then (mem s)(LPTIM1_ISR := mem s LPTIM1_ISR AND NOT v)
                else (mem s)(l := v)),
       trace := trace s @ [Wr l v]\<rparr>"

text \<open>
  The device header's \<^verbatim>\<open>MODIFY_REG(REG, CLEARMASK, SETMASK)\<close>, which writes
  \<^verbatim>\<open>(REG & ~CLEARMASK) | SETMASK\<close> back to the register.
\<close>

definition MODIFY_REG :: "loc \<Rightarrow> u32 \<Rightarrow> u32 \<Rightarrow> mcu \<Rightarrow> mcu" where
  "MODIFY_REG l clearmask setmask s =
     (let (v, s) = load l s in store l ((v AND NOT clearmask) OR setmask) s)"

text \<open>The compound assignments \<^verbatim>\<open>REG |= m\<close> and \<^verbatim>\<open>REG &= ~m\<close>: a load, then a store.\<close>

definition set_bits :: "loc \<Rightarrow> u32 \<Rightarrow> mcu \<Rightarrow> mcu" where
  "set_bits l m s = (let (v, s) = load l s in store l (v OR m) s)"

definition clear_bits :: "loc \<Rightarrow> u32 \<Rightarrow> mcu \<Rightarrow> mcu" where
  "clear_bits l m s = (let (v, s) = load l s in store l (v AND NOT m) s)"

definition NVIC_EnableIRQ :: "mcu \<Rightarrow> mcu" where
  "NVIC_EnableIRQ s = s\<lparr>nvic_lptim1 := True, trace := trace s @ [NvicEnable]\<rparr>"

definition NVIC_DisableIRQ :: "mcu \<Rightarrow> mcu" where
  "NVIC_DisableIRQ s = s\<lparr>nvic_lptim1 := False, trace := trace s @ [NvicDisable]\<rparr>"

section \<open>Lifecycle\<close>

definition UPTIME_Reset :: "header \<Rightarrow> mcu \<Rightarrow> mcu" where
  "UPTIME_Reset h s =
     (let s = store uptime_ms_cnt 0 s;
          s = set_bits RCC_APB1RSTR1 (RCC_APB1RSTR1_LPTIM1RST h) s;
          s = clear_bits RCC_APB1RSTR1 (RCC_APB1RSTR1_LPTIM1RST h) s
      in s)"

definition UPTIME_Suspend :: "header \<Rightarrow> mcu \<Rightarrow> mcu" where
  "UPTIME_Suspend h s = clear_bits LPTIM1_CR (LPTIM_CR_ENABLE h) s"

definition UPTIME_Resume :: "header \<Rightarrow> mcu \<Rightarrow> mcu" where
  "UPTIME_Resume h s =
     (let s = set_bits LPTIM1_CR (LPTIM_CR_ENABLE h) s;
          s = set_bits LPTIM1_CR (LPTIM_CR_CNTSTRT h) s
      in s)"

definition UPTIME_DeInit :: "header \<Rightarrow> mcu \<Rightarrow> mcu" where
  "UPTIME_DeInit h s =
     (let s = NVIC_DisableIRQ s;
          s = clear_bits RCC_APB1ENR1 (RCC_APB1ENR1_LPTIM1EN h) s;
          s = UPTIME_Reset h s
      in s)"

section \<open>Interrupt handler and time queries\<close>

definition LPTIM1_IRQHandler :: "header \<Rightarrow> mcu \<Rightarrow> mcu" where
  "LPTIM1_IRQHandler h s =
     (let s = store LPTIM1_ICR (LPTIM_ICR_ARRMCF h OR LPTIM_ICR_CMPMCF h) s;
          (v, s) = load uptime_ms_cnt s;
          s = store uptime_ms_cnt (v + 1) s
      in s)"

definition millis :: "mcu \<Rightarrow> u32 \<times> mcu" where
  "millis s = load uptime_ms_cnt s"

definition micros :: "mcu \<Rightarrow> u32 \<times> mcu" where
  "micros s =
     (let (m, s) = load uptime_ms_cnt s;
          (c, s) = load LPTIM1_CNT s
      in (m * 1000 + c, s))"

section \<open>Hardware and interrupts between two loads\<close>

text \<open>
  The handler runs in interrupt context and the timer counts on its own, so between
  two volatile loads of the main program the hardware may have raised and the handler
  served any number of reload interrupts, and \<^verbatim>\<open>LPTIM1->CNT\<close> may hold a new value.
  The hardware changes a register without an access of the program.
\<close>

definition hw_set :: "loc \<Rightarrow> u32 \<Rightarrow> mcu \<Rightarrow> mcu" where
  "hw_set l v s = s\<lparr>mem := (mem s)(l := v)\<rparr>"

fun irqs :: "header \<Rightarrow> nat \<Rightarrow> mcu \<Rightarrow> mcu" where
  "irqs h 0 s = s"
| "irqs h (Suc k) s = irqs h k (LPTIM1_IRQHandler h s)"

text \<open>
  A hardware step \<open>(k, c)\<close>: \<open>k\<close> reload interrupts are served, and afterwards the
  hardware counter reads \<open>c\<close>.
\<close>

type_synonym hw_step = "nat \<times> u32"

definition hw_run :: "header \<Rightarrow> hw_step \<Rightarrow> mcu \<Rightarrow> mcu" where
  "hw_run h e s = hw_set LPTIM1_CNT (snd e) (irqs h (fst e) s)"

text \<open>
  \<^verbatim>\<open>micros()\<close> with the hardware step \<open>e\<close> falling between its two loads. The
  source writes \<^verbatim>\<open>(_uptime_ms_cnt * 1000UL) + LPTIM1 -> CNT\<close>; C leaves the order in
  which the two operands of \<^verbatim>\<open>+\<close> are evaluated open, so the second function loads
  the register first.
\<close>

definition micros_irq :: "header \<Rightarrow> hw_step \<Rightarrow> mcu \<Rightarrow> u32 \<times> mcu" where
  "micros_irq h e s =
     (let (m, s) = load uptime_ms_cnt s;
          s = hw_run h e s;
          (c, s) = load LPTIM1_CNT s
      in (m * 1000 + c, s))"


section \<open>Delays\<close>

text \<open>
  \<^verbatim>\<open>while(millis() - start < ms);\<close> has an empty body and may spin forever (a
  suspended timer never ticks), so the loop takes fuel: the number of times the
  condition may hold before the model gives up with \<open>None\<close>. \<open>env i\<close> is the number of
  reload interrupts served between the previous load of the counter and the load of
  poll \<open>i\<close>. The result is the number of polls whose condition held, that is, the
  number of iterations of the loop, and the state at the return.
\<close>

fun delayMs_loop ::
  "header \<Rightarrow> (nat \<Rightarrow> nat) \<Rightarrow> u32 \<Rightarrow> u32 \<Rightarrow> nat \<Rightarrow> nat \<Rightarrow> mcu \<Rightarrow> (nat \<times> mcu) option" where
  "delayMs_loop h env start ms i 0 s =
     (let (now, s) = millis (irqs h (env i) s)
      in if now - start < ms then None else Some (i, s))"
| "delayMs_loop h env start ms i (Suc fuel) s =
     (let (now, s) = millis (irqs h (env i) s)
      in if now - start < ms then delayMs_loop h env start ms (Suc i) fuel s
         else Some (i, s))"

definition delayMs :: "header \<Rightarrow> (nat \<Rightarrow> nat) \<Rightarrow> u32 \<Rightarrow> nat \<Rightarrow> mcu \<Rightarrow> (nat \<times> mcu) option" where
  "delayMs h env ms fuel s =
     (let (start, s) = millis s in delayMs_loop h env start ms 0 fuel s)"

text \<open>
  \<^verbatim>\<open>delayUs\<close> polls \<^verbatim>\<open>micros()\<close>. \<open>env i\<close> is a pair of hardware steps: the first
  falls before call \<open>i\<close> of \<^verbatim>\<open>micros()\<close>, the second between its two loads. \<open>e0\<close>
  is the step inside the call that captures \<open>start\<close>.
\<close>

fun delayUs_loop ::
  "header \<Rightarrow> (nat \<Rightarrow> hw_step \<times> hw_step) \<Rightarrow> u32 \<Rightarrow> u32 \<Rightarrow> nat \<Rightarrow> nat \<Rightarrow> mcu
     \<Rightarrow> (nat \<times> mcu) option" where
  "delayUs_loop h env start us i 0 s =
     (let (now, s) = micros_irq h (snd (env i)) (hw_run h (fst (env i)) s)
      in if now - start < us then None else Some (i, s))"
| "delayUs_loop h env start us i (Suc fuel) s =
     (let (now, s) = micros_irq h (snd (env i)) (hw_run h (fst (env i)) s)
      in if now - start < us then delayUs_loop h env start us (Suc i) fuel s
         else Some (i, s))"

definition delayUs ::
  "header \<Rightarrow> hw_step \<Rightarrow> (nat \<Rightarrow> hw_step \<times> hw_step) \<Rightarrow> u32 \<Rightarrow> nat \<Rightarrow> mcu
     \<Rightarrow> (nat \<times> mcu) option" where
  "delayUs h e0 env us fuel s =
     (let (start, s) = micros_irq h e0 s in delayUs_loop h env start us 0 fuel s)"

text \<open>Ticks elapsed up to and including poll \<open>i\<close> of a delay.\<close>

fun elapsed :: "(nat \<Rightarrow> nat) \<Rightarrow> nat \<Rightarrow> nat" where
  "elapsed env 0 = env 0"
| "elapsed env (Suc i) = elapsed env i + env (Suc i)"

text \<open>
  The deterministic test clock: the first poll follows the capture of \<open>start\<close> at once,
  and exactly one tick falls between two consecutive polls.
\<close>

definition one_tick_per_poll :: "nat \<Rightarrow> nat" where
  "one_tick_per_poll i = (if i = 0 then 0 else 1)"

section \<open>Initialisation\<close>

text \<open>
  \<^verbatim>\<open>while(!(RCC -> CR & RCC_CR_HSIRDY));\<close> has no timeout. The oscillator raises the
  ready flag by itself: \<open>rdy i\<close> says whether it does so just before poll \<open>i\<close>. The
  loop takes fuel as the delays do, \<open>None\<close> meaning that it is still spinning.
\<close>

definition hsi_hw :: "header \<Rightarrow> bool \<Rightarrow> mcu \<Rightarrow> mcu" where
  "hsi_hw h b s = (if b then hw_set RCC_CR (mem s RCC_CR OR RCC_CR_HSIRDY h) s else s)"

fun wait_HSIRDY :: "header \<Rightarrow> (nat \<Rightarrow> bool) \<Rightarrow> nat \<Rightarrow> nat \<Rightarrow> mcu \<Rightarrow> mcu option" where
  "wait_HSIRDY h rdy i 0 s =
     (let (v, s) = load RCC_CR (hsi_hw h (rdy i) s)
      in if v AND RCC_CR_HSIRDY h = 0 then None else Some s)"
| "wait_HSIRDY h rdy i (Suc fuel) s =
     (let (v, s) = load RCC_CR (hsi_hw h (rdy i) s)
      in if v AND RCC_CR_HSIRDY h = 0 then wait_HSIRDY h rdy (Suc i) fuel s else Some s)"

text \<open>The part of \<^verbatim>\<open>UPTIME_Init\<close> after the oscillator block, steps 3 to 6 of the source.\<close>

definition UPTIME_Init_configure :: "header \<Rightarrow> mcu \<Rightarrow> mcu" where
  "UPTIME_Init_configure h s =
     (let s = MODIFY_REG RCC_CCIPR (RCC_CCIPR_LPTIM1SEL h) (RCC_CCIPR_LPTIM1SEL_1 h) s;
          s = set_bits RCC_APB1ENR1 (RCC_APB1ENR1_LPTIM1EN h) s;
          s = store LPTIM1_CFGR (LPTIM_CFGR_PRESC_2 h) s;
          s = store LPTIM1_IER (LPTIM_IER_ARRMIE h) s;
          s = store LPTIM1_CR (LPTIM_CR_ENABLE h) s;
          s = store LPTIM1_ARR LPTIM_ARR_VALUE s;
          s = set_bits LPTIM1_CR (LPTIM_CR_CNTSTRT h) s;
          s = NVIC_EnableIRQ s
      in s)"

definition UPTIME_Init :: "header \<Rightarrow> (nat \<Rightarrow> bool) \<Rightarrow> nat \<Rightarrow> mcu \<Rightarrow> mcu option" where
  "UPTIME_Init h rdy fuel s =
     (let s = UPTIME_Reset h s;
          (cr, s) = load RCC_CR s;
          waited = (if cr AND RCC_CR_HSION h = 0
                    then wait_HSIRDY h rdy 0 fuel (set_bits RCC_CR (RCC_CR_HSION h) s)
                    else Some s)
      in map_option (UPTIME_Init_configure h) waited)"

text \<open>
  What a trace says about the oscillator: a load of \<^verbatim>\<open>RCC->CR\<close> that saw the ready
  flag set, the store to \<^verbatim>\<open>RCC->CCIPR\<close> that selects the timer's clock, and whether
  the first comes before the second.
\<close>

fun is_ready_read :: "header \<Rightarrow> access \<Rightarrow> bool" where
  "is_ready_read h (Rd l v) = (l = RCC_CR \<and> v AND RCC_CR_HSIRDY h \<noteq> 0)"
| "is_ready_read h (Wr l v) = False"
| "is_ready_read h NvicEnable = False"
| "is_ready_read h NvicDisable = False"

fun is_clock_select :: "access \<Rightarrow> bool" where
  "is_clock_select (Wr l v) = (l = RCC_CCIPR)"
| "is_clock_select (Rd l v) = False"
| "is_clock_select NvicEnable = False"
| "is_clock_select NvicDisable = False"

fun ready_before_select :: "header \<Rightarrow> access list \<Rightarrow> bool" where
  "ready_before_select h [] = False"
| "ready_before_select h (a # as) =
     (if is_ready_read h a then True
      else if is_clock_select a then False
      else ready_before_select h as)"

fun selects_clock :: "access list \<Rightarrow> bool" where
  "selects_clock [] = False"
| "selects_clock (a # as) = (is_clock_select a \<or> selects_clock as)"

fun count_RCC_CR_reads :: "access list \<Rightarrow> nat" where
  "count_RCC_CR_reads [] = 0"
| "count_RCC_CR_reads (a # as) =
     (case a of Rd l v \<Rightarrow> (if l = RCC_CR then 1 else 0) | _ \<Rightarrow> 0) + count_RCC_CR_reads as"

definition accesses_since :: "mcu \<Rightarrow> mcu \<Rightarrow> access list" where
  "accesses_since s s' = drop (length (trace s)) (trace s')"

section \<open>Runs of the API\<close>

text \<open>
  A run interleaves calls of the API from the main program with reload interrupts
  and with the hardware counter moving.
\<close>

datatype call = Irq | HwCnt u32 | Millis | Micros | Suspend | Resume | Reset | DeInit

fun exec :: "header \<Rightarrow> call \<Rightarrow> mcu \<Rightarrow> mcu" where
  "exec h Irq s = LPTIM1_IRQHandler h s"
| "exec h (HwCnt c) s = hw_set LPTIM1_CNT c s"
| "exec h Millis s = snd (millis s)"
| "exec h Micros s = snd (micros s)"
| "exec h Suspend s = UPTIME_Suspend h s"
| "exec h Resume s = UPTIME_Resume h s"
| "exec h Reset s = UPTIME_Reset h s"
| "exec h DeInit s = UPTIME_DeInit h s"

definition run :: "header \<Rightarrow> call list \<Rightarrow> mcu \<Rightarrow> mcu" where
  "run h cs s = fold (exec h) cs s"

section \<open>Concrete states\<close>

text \<open>
  States and environments at which the theorems below are evaluated: every location
  zero; a running timer with 41 ms on the counter and all status flags pending; the
  same with the counter two ticks before \<open>2 ^ 32\<close>, and one tick before
  \<open>counter * 1000\<close> passes \<open>2 ^ 32\<close>; the oscillator switched on a moment ago and
  not yet ready.
\<close>

definition zeroed :: mcu where
  "zeroed = \<lparr>mem = (\<lambda>l. 0), nvic_lptim1 = False, trace = []\<rparr>"

definition pending :: mcu where
  "pending = \<lparr>mem = (\<lambda>l. 0)(uptime_ms_cnt := 41, LPTIM1_ISR := 0x7F, LPTIM1_CNT := 3,
                               LPTIM1_CR := 5),
              nvic_lptim1 = True, trace = []\<rparr>"

definition near_wrap :: mcu where
  "near_wrap = hw_set uptime_ms_cnt 0xFFFFFFFE pending"


definition hsi_starting :: mcu where
  "hsi_starting = hw_set RCC_CR 0x100 zeroed"

definition never_ready :: "nat \<Rightarrow> bool" where
  "never_ready i = False"

definition ready_at_third_poll :: "nat \<Rightarrow> bool" where
  "ready_at_third_poll i = (i = 2)"

definition sample_run :: "call list" where
  "sample_run = [Millis, Irq, Micros, Irq, HwCnt 7, Suspend, Resume, Irq, Millis]"

section \<open>Basic facts\<close>

lemma store_simps:
  "mem (store l v s) =
     (if l = LPTIM1_ICR then (mem s)(LPTIM1_ISR := mem s LPTIM1_ISR AND NOT v)
      else (mem s)(l := v))"
  "nvic_lptim1 (store l v s) = nvic_lptim1 s"
  "trace (store l v s) = trace s @ [Wr l v]"
  by (simp_all add: store_def)

lemma set_bits_simps:
  "mem (set_bits l m s) = mem (store l (mem s l OR m) s)"
  "nvic_lptim1 (set_bits l m s) = nvic_lptim1 s"
  "trace (set_bits l m s) = trace s @ [Rd l (mem s l), Wr l (mem s l OR m)]"
  by (simp_all add: set_bits_def load_def store_def)

lemma clear_bits_simps:
  "mem (clear_bits l m s) = mem (store l (mem s l AND NOT m) s)"
  "nvic_lptim1 (clear_bits l m s) = nvic_lptim1 s"
  "trace (clear_bits l m s) = trace s @ [Rd l (mem s l), Wr l (mem s l AND NOT m)]"
  by (simp_all add: clear_bits_def load_def store_def)

lemma or_and_mask: "(r OR m) AND m = (m :: u32)"
  by (rule bit_word_eqI) (auto simp: bit_simps)

lemma or_clear_mask: "((r OR m) AND NOT m) AND m = (0 :: u32)"
  by (rule bit_word_eqI) (auto simp: bit_simps)

lemma millis_value: "fst (millis s) = mem s uptime_ms_cnt"
  by (simp add: millis_def load_def)

lemma millis_mem: "mem (snd (millis s)) = mem s"
  by (simp add: millis_def load_def)

lemma micros_value: "fst (micros s) = mem s uptime_ms_cnt * 1000 + mem s LPTIM1_CNT"
  by (simp add: micros_def load_def)

lemma handler_mem:
  "mem (LPTIM1_IRQHandler h s) =
     (mem s)(LPTIM1_ISR := mem s LPTIM1_ISR AND NOT (LPTIM_ICR_ARRMCF h OR LPTIM_ICR_CMPMCF h),
             uptime_ms_cnt := mem s uptime_ms_cnt + 1)"
  by (simp add: LPTIM1_IRQHandler_def load_def store_def)

lemma handler_nvic: "nvic_lptim1 (LPTIM1_IRQHandler h s) = nvic_lptim1 s"
  by (simp add: LPTIM1_IRQHandler_def load_def store_def)

lemma handler_trace:
  "trace (LPTIM1_IRQHandler h s) =
     trace s @ [Wr LPTIM1_ICR (LPTIM_ICR_ARRMCF h OR LPTIM_ICR_CMPMCF h),
                Rd uptime_ms_cnt (mem s uptime_ms_cnt),
                Wr uptime_ms_cnt (mem s uptime_ms_cnt + 1)]"
  by (simp add: LPTIM1_IRQHandler_def load_def store_def)

lemma irqs_counter: "mem (irqs h k s) uptime_ms_cnt = mem s uptime_ms_cnt + of_nat k"
  by (induction k arbitrary: s) (simp_all add: handler_mem)


lemma Reset_mem:
  "mem (UPTIME_Reset h s) =
     (mem s)(uptime_ms_cnt := 0,
             RCC_APB1RSTR1 := (mem s RCC_APB1RSTR1 OR RCC_APB1RSTR1_LPTIM1RST h)
                                AND NOT (RCC_APB1RSTR1_LPTIM1RST h))"
  by (simp add: UPTIME_Reset_def set_bits_simps clear_bits_simps store_simps)

lemma Reset_trace:
  "trace (UPTIME_Reset h s) =
     trace s @ [Wr uptime_ms_cnt 0,
        Rd RCC_APB1RSTR1 (mem s RCC_APB1RSTR1),
        Wr RCC_APB1RSTR1 (mem s RCC_APB1RSTR1 OR RCC_APB1RSTR1_LPTIM1RST h),
        Rd RCC_APB1RSTR1 (mem s RCC_APB1RSTR1 OR RCC_APB1RSTR1_LPTIM1RST h),
        Wr RCC_APB1RSTR1 ((mem s RCC_APB1RSTR1 OR RCC_APB1RSTR1_LPTIM1RST h)
                                AND NOT (RCC_APB1RSTR1_LPTIM1RST h))]"
  by (simp add: UPTIME_Reset_def set_bits_simps clear_bits_simps store_simps)

lemma Suspend_mem:
  "mem (UPTIME_Suspend h s) = (mem s)(LPTIM1_CR := mem s LPTIM1_CR AND NOT (LPTIM_CR_ENABLE h))"
  by (simp add: UPTIME_Suspend_def clear_bits_simps store_simps)

lemma Resume_mem:
  "mem (UPTIME_Resume h s)
     = (mem s)(LPTIM1_CR := mem s LPTIM1_CR OR LPTIM_CR_ENABLE h OR LPTIM_CR_CNTSTRT h)"
  by (simp add: UPTIME_Resume_def set_bits_simps store_simps or.assoc)

lemma micros_hw_run:
  "fst (micros (hw_run h (k, c) s)) = (mem s uptime_ms_cnt + of_nat k) * 1000 + c"
  by (simp add: micros_value hw_run_def hw_set_def irqs_counter)







section \<open>The microsecond query\<close>

text \<open>
  C1. For every state, \<^verbatim>\<open>micros()\<close> returns the millisecond counter times 1000 plus
  the value the hardware counter register \<^verbatim>\<open>LPTIM1->CNT\<close> holds when it is read,
  computed in unsigned 32-bit arithmetic: as a number, the result is
  \<open>(counter * 1000 + subcount) mod 2 ^ 32\<close>. The call makes two loads, the second
  one of the live register, and stores nothing.
\<close>

theorem micros_is_counter_times_1000_plus_subcount:
  "fst (micros s) = mem s uptime_ms_cnt * 1000 + mem s LPTIM1_CNT
   \<and> unat (fst (micros s))
       = (unat (mem s uptime_ms_cnt) * 1000 + unat (mem s LPTIM1_CNT)) mod 2 ^ 32
   \<and> trace (snd (micros s))
       = trace s @ [Rd uptime_ms_cnt (mem s uptime_ms_cnt), Rd LPTIM1_CNT (mem s LPTIM1_CNT)]
   \<and> mem (snd (micros s)) = mem s"
  by (simp add: micros_def load_def unat_word_ariths mod_simps)




section \<open>The interrupt handler\<close>

text \<open>
  C3. Each invocation of \<^verbatim>\<open>LPTIM1_IRQHandler\<close> clears exactly the reload-match and
  compare-match flags of the status register (the bits of \<^verbatim>\<open>ARRMCF | CMPMCF\<close>) and
  adds exactly 1 to the millisecond counter. It changes no other location and not the
  interrupt controller; its accesses are one store to \<^verbatim>\<open>ICR\<close>, one load and one
  store of the counter. So after \<open>N\<close> reload interrupts following a reset,
  \<^verbatim>\<open>millis()\<close> is \<open>N\<close> modulo \<open>2 ^ 32\<close>.
\<close>

theorem handler_acks_and_ticks:
  "mem (LPTIM1_IRQHandler h s) LPTIM1_ISR
      = mem s LPTIM1_ISR AND NOT (LPTIM_ICR_ARRMCF h OR LPTIM_ICR_CMPMCF h)
   \<and> mem (LPTIM1_IRQHandler h s) uptime_ms_cnt = mem s uptime_ms_cnt + 1
   \<and> (\<forall>l. l \<noteq> LPTIM1_ISR \<and> l \<noteq> uptime_ms_cnt \<longrightarrow> mem (LPTIM1_IRQHandler h s) l = mem s l)
   \<and> nvic_lptim1 (LPTIM1_IRQHandler h s) = nvic_lptim1 s
   \<and> accesses_since s (LPTIM1_IRQHandler h s)
       = [Wr LPTIM1_ICR (LPTIM_ICR_ARRMCF h OR LPTIM_ICR_CMPMCF h),
          Rd uptime_ms_cnt (mem s uptime_ms_cnt),
          Wr uptime_ms_cnt (mem s uptime_ms_cnt + 1)]
   \<and> fst (millis (irqs h N (UPTIME_Reset h s))) = of_nat N
   \<and> unat (fst (millis (irqs h N (UPTIME_Reset h s)))) = N mod 2 ^ 32"
  by (simp add: handler_mem handler_nvic handler_trace accesses_since_def
        millis_value irqs_counter Reset_mem unat_of_nat)

text \<open>
  With all seven status flags pending and 41 ms on the counter: the two flags go, the
  other five and the hardware counter stay, the counter reads 42; three interrupts
  after a reset it reads 3.
\<close>

theorem handler_acks_and_ticks_witness:
  "LPTIM1_CNT \<noteq> LPTIM1_ISR \<and> LPTIM1_CNT \<noteq> uptime_ms_cnt
   \<and> mem (LPTIM1_IRQHandler stm32g4xx pending) LPTIM1_CNT = mem pending LPTIM1_CNT
   \<and> mem (LPTIM1_IRQHandler stm32g4xx pending) LPTIM1_ISR = 0x7C
   \<and> mem (LPTIM1_IRQHandler stm32g4xx pending) uptime_ms_cnt = 42
   \<and> fst (millis (irqs stm32g4xx 3 (UPTIME_Reset stm32g4xx pending))) = 3"
  using handler_acks_and_ticks [where h = stm32g4xx and s = pending and N = 3]
  by (simp add: pending_def stm32g4xx_def)

section \<open>Monotonicity of the millisecond query\<close>

lemma exec_counter:
  "c \<noteq> Reset \<Longrightarrow> c \<noteq> DeInit \<Longrightarrow>
   mem (exec h c s) uptime_ms_cnt = mem s uptime_ms_cnt + (if c = Irq then 1 else 0)"
  by (cases c) (simp_all add: handler_mem hw_set_def millis_def micros_def load_def
       Suspend_mem Resume_mem split: prod.splits)

lemma run_counter:
  "Reset \<notin> set cs \<Longrightarrow> DeInit \<notin> set cs \<Longrightarrow>
   mem (run h cs s) uptime_ms_cnt = mem s uptime_ms_cnt + of_nat (count_list cs Irq)"
proof (induction cs arbitrary: s)
  case Nil
  then show ?case by (simp add: run_def)
next
  case (Cons c cs)
  then have "mem (run h cs (exec h c s)) uptime_ms_cnt
      = mem (exec h c s) uptime_ms_cnt + of_nat (count_list cs Irq)"
    by simp
  moreover have "mem (exec h c s) uptime_ms_cnt = mem s uptime_ms_cnt + (if c = Irq then 1 else 0)"
    using Cons.prems by (intro exec_counter) auto
  ultimately show ?case by (simp add: run_def)
qed

text \<open>
  C4. Take two calls of \<^verbatim>\<open>millis()\<close> with any run in between that contains no reset
  (neither \<^verbatim>\<open>UPTIME_Reset\<close> nor \<^verbatim>\<open>UPTIME_DeInit\<close>, which resets): interrupts, queries,
  suspend and resume, the hardware counter moving. The later value is the earlier one
  plus the number of interrupts, modulo \<open>2 ^ 32\<close>. So the later value is at least the
  earlier one as long as the counter has not passed \<open>2 ^ 32\<close>, and after one
  wraparound the later value plus \<open>2 ^ 32\<close> is: only the handler moves the counter,
  and only upwards.
\<close>

theorem millis_monotone_up_to_wrap:
  assumes "Reset \<notin> set cs" and "DeInit \<notin> set cs"
  shows "fst (millis (run h cs s)) = fst (millis s) + of_nat (count_list cs Irq)
   \<and> (unat (fst (millis s)) + count_list cs Irq < 2 ^ 32
        \<longrightarrow> fst (millis s) \<le> fst (millis (run h cs s))
            \<and> unat (fst (millis (run h cs s))) = unat (fst (millis s)) + count_list cs Irq)
   \<and> (2 ^ 32 \<le> unat (fst (millis s)) + count_list cs Irq
        \<and> unat (fst (millis s)) + count_list cs Irq < 2 * 2 ^ 32
        \<longrightarrow> unat (fst (millis (run h cs s))) + 2 ^ 32
              = unat (fst (millis s)) + count_list cs Irq
            \<and> unat (fst (millis s)) \<le> unat (fst (millis (run h cs s))) + 2 ^ 32)"
proof -
  let ?k = "count_list cs Irq"
  let ?m = "mem s uptime_ms_cnt"
  have eq: "mem (run h cs s) uptime_ms_cnt = ?m + of_nat ?k"
    using assms by (rule run_counter)
  have un: "unat (?m + of_nat ?k) = (unat ?m + ?k) mod 2 ^ 32"
    by (simp add: unat_word_ariths unat_of_nat mod_simps)
  have nowrap: "unat ?m + ?k < 2 ^ 32 \<Longrightarrow> unat (?m + of_nat ?k) = unat ?m + ?k"
    unfolding un by simp
  have wrap: "2 ^ 32 \<le> unat ?m + ?k \<Longrightarrow> unat ?m + ?k < 2 * 2 ^ 32
      \<Longrightarrow> unat (?m + of_nat ?k) + 2 ^ 32 = unat ?m + ?k"
  proof -
    assume lo: "2 ^ 32 \<le> unat ?m + ?k" and hi: "unat ?m + ?k < 2 * 2 ^ 32"
    have "(unat ?m + ?k) mod 2 ^ 32 = (unat ?m + ?k - 2 ^ 32) mod 2 ^ 32"
      using lo by (rule le_mod_geq)
    also have "\<dots> = unat ?m + ?k - 2 ^ 32"
      using hi by (intro mod_less) simp
    finally show ?thesis
      unfolding un using lo by simp
  qed
  show ?thesis
    unfolding millis_value eq
    using nowrap wrap by (auto simp: word_le_nat_alt)
qed

text \<open>
  A run with three interrupts among queries, a suspend and a resume: from 41 the
  counter goes to 44; from \<open>2 ^ 32 - 2\<close> it wraps to 1, which is \<open>2 ^ 32 + 1\<close> unwrapped.
\<close>

theorem millis_monotone_up_to_wrap_witness:
  "Reset \<notin> set sample_run \<and> DeInit \<notin> set sample_run
   \<and> unat (fst (millis pending)) + count_list sample_run Irq < 2 ^ 32
   \<and> fst (millis pending) \<le> fst (millis (run stm32g4xx sample_run pending))
   \<and> fst (millis (run stm32g4xx sample_run pending)) = 44
   \<and> 2 ^ 32 \<le> unat (fst (millis near_wrap)) + count_list sample_run Irq
   \<and> unat (fst (millis near_wrap)) + count_list sample_run Irq < 2 * 2 ^ 32
   \<and> unat (fst (millis (run stm32g4xx sample_run near_wrap))) + 2 ^ 32
       = unat (fst (millis near_wrap)) + 3
   \<and> fst (millis (run stm32g4xx sample_run near_wrap)) = 1"
  using millis_monotone_up_to_wrap [where cs = sample_run and h = stm32g4xx and s = pending]
    millis_monotone_up_to_wrap [where cs = sample_run and h = stm32g4xx and s = near_wrap]
  by (simp add: sample_run_def millis_value pending_def near_wrap_def hw_set_def)

section \<open>Delays\<close>

declare of_nat_sum [simp del]



lemma poll_counter:
  "millis (irqs h k s) = (now, s2) \<Longrightarrow>
     now = mem s uptime_ms_cnt + of_nat k \<and> mem s2 uptime_ms_cnt = mem s uptime_ms_cnt + of_nat k"
  by (auto simp: millis_def load_def irqs_counter)

lemma delayMs_loop_sound:
  "delayMs_loop h env start ms i fuel s = Some (n, s') \<Longrightarrow>
     i \<le> n \<and> n \<le> i + fuel
     \<and> mem s' uptime_ms_cnt = mem s uptime_ms_cnt + of_nat (sum env {i..n})
     \<and> \<not> (mem s' uptime_ms_cnt - start < ms)
     \<and> (\<forall>j. i \<le> j \<and> j < n \<longrightarrow> mem s uptime_ms_cnt + of_nat (sum env {i..j}) - start < ms)"
proof (induction fuel arbitrary: i s)
  case 0
  obtain now s2 where p: "millis (irqs h (env i) s) = (now, s2)"
    by (cases "millis (irqs h (env i) s)")
  note pc = poll_counter [OF p]
  from 0 p have "\<not> now - start < ms" and "n = i" and "s' = s2"
    by (auto split: if_splits)
  with pc show ?case by auto
next
  case (Suc fuel)
  obtain now s2 where p: "millis (irqs h (env i) s) = (now, s2)"
    by (cases "millis (irqs h (env i) s)")
  note pc = poll_counter [OF p]
  show ?case
  proof (cases "now - start < ms")
    case False
    with Suc.prems p have "n = i" and "s' = s2" by auto
    with pc False show ?thesis by auto
  next
    case True
    with Suc.prems p have rec: "delayMs_loop h env start ms (Suc i) fuel s2 = Some (n, s')"
      by simp
    note ih = Suc.IH [OF rec]
    from ih have le: "Suc i \<le> n" by simp
    have split_sum: "sum env {i..j} = env i + sum env {Suc i..j}" if "i \<le> j" for j
      using that by (simp add: sum.atLeast_Suc_atMost)
    have cnt: "mem s' uptime_ms_cnt = mem s uptime_ms_cnt + of_nat (sum env {i..n})"
      using ih pc le by (simp add: split_sum)
    have before: "mem s uptime_ms_cnt + of_nat (sum env {i..j}) - start < ms"
      if "i \<le> j" and "j < n" for j
    proof (cases "j = i")
      case True
      with \<open>now - start < ms\<close> pc show ?thesis by simp
    next
      case False
      with that have sj: "Suc i \<le> j" by simp
      with ih that have "mem s2 uptime_ms_cnt + of_nat (sum env {Suc i..j}) - start < ms"
        by blast
      moreover have "mem s uptime_ms_cnt + of_nat (sum env {i..j})
          = mem s2 uptime_ms_cnt + of_nat (sum env {Suc i..j})"
        using pc that by (simp add: split_sum)
      ultimately show ?thesis by simp
    qed
    from ih le cnt before show ?thesis by auto
  qed
qed

lemma delayMs_loop_returns:
  "n \<le> fuel \<Longrightarrow>
   \<not> (mem s uptime_ms_cnt + of_nat (sum env {i..i + n}) - start < ms) \<Longrightarrow>
   delayMs_loop h env start ms i fuel s \<noteq> None"
proof (induction fuel arbitrary: i s n)
  case 0
  obtain now s2 where p: "millis (irqs h (env i) s) = (now, s2)"
    by (cases "millis (irqs h (env i) s)")
  note pc = poll_counter [OF p]
  from 0 pc p show ?case by simp
next
  case (Suc fuel)
  obtain now s2 where p: "millis (irqs h (env i) s) = (now, s2)"
    by (cases "millis (irqs h (env i) s)")
  note pc = poll_counter [OF p]
  show ?case
  proof (cases "now - start < ms")
    case False
    with p show ?thesis by simp
  next
    case True
    have "n \<noteq> 0"
    proof
      assume "n = 0"
      with Suc.prems(2) have "\<not> mem s uptime_ms_cnt + of_nat (env i) - start < ms" by simp
      with True pc show False by simp
    qed
    then obtain n' where n: "n = Suc n'" by (cases n) auto
    have split_sum: "sum env {i..i + Suc n'} = env i + sum env {Suc i..Suc i + n'}"
      by (simp add: sum.atLeast_Suc_atMost)
    have "delayMs_loop h env start ms (Suc i) fuel s2 \<noteq> None"
    proof (rule Suc.IH)
      show "n' \<le> fuel" using Suc.prems n by simp
      show "\<not> mem s2 uptime_ms_cnt + of_nat (sum env {Suc i..Suc i + n'}) - start < ms"
        using Suc.prems(2) pc unfolding n split_sum by (simp add: add.assoc)
    qed
    with True p show ?thesis by simp
  qed
qed

lemma elapsed_sum: "elapsed env n = sum env {0..n}"
  by (induction n) (simp_all add: atLeast0_atMost_Suc)

lemma elapsed_one_tick: "elapsed one_tick_per_poll n = n"
  by (induction n) (simp_all add: one_tick_per_poll_def)

lemma delayMs_sound:
  assumes "delayMs h env ms fuel s = Some (n, s')"
  shows "n \<le> fuel"
    and "mem s' uptime_ms_cnt = mem s uptime_ms_cnt + of_nat (elapsed env n)"
    and "\<not> ((of_nat (elapsed env n) :: u32) < ms)"
    and "\<forall>j<n. (of_nat (elapsed env j) :: u32) < ms"
proof -
  let ?s1 = "snd (millis s)"
  have loop: "delayMs_loop h env (mem s uptime_ms_cnt) ms 0 fuel ?s1 = Some (n, s')"
    using assms by (simp add: delayMs_def millis_def load_def)
  have m1: "mem ?s1 uptime_ms_cnt = mem s uptime_ms_cnt"
    by (simp add: millis_mem)
  note snd = delayMs_loop_sound [OF loop, unfolded m1]
  from snd show "n \<le> fuel" by simp
  from snd show "mem s' uptime_ms_cnt = mem s uptime_ms_cnt + of_nat (elapsed env n)"
    by (simp add: elapsed_sum)
  have "mem s' uptime_ms_cnt - mem s uptime_ms_cnt = of_nat (elapsed env n)"
    using snd by (simp add: elapsed_sum)
  with snd show "\<not> ((of_nat (elapsed env n) :: u32) < ms)"
    by simp
  from snd show "\<forall>j<n. (of_nat (elapsed env j) :: u32) < ms"
    by (simp add: elapsed_sum)
qed

lemma delayMs_returns:
  assumes "n \<le> fuel" and "\<not> ((of_nat (elapsed env n) :: u32) < ms)"
  shows "delayMs h env ms fuel s \<noteq> None"
proof -
  let ?s1 = "snd (millis s)"
  have "delayMs_loop h env (mem s uptime_ms_cnt) ms 0 fuel ?s1 \<noteq> None"
    using assms by (intro delayMs_loop_returns [where n = n]) (simp_all add: millis_mem elapsed_sum)
  then show ?thesis
    by (simp add: delayMs_def millis_def load_def)
qed

lemma of_nat_u32_less:
  "a < b \<Longrightarrow> b < 2 ^ 32 \<Longrightarrow> (of_nat a :: u32) < of_nat b"
  by (simp add: word_less_nat_alt unat_of_nat)

lemma delayMs_one_tick:
  assumes "d < 2 ^ 32" and "d \<le> fuel"
  shows "\<exists>s'. delayMs h one_tick_per_poll (of_nat d) fuel s = Some (d, s')
            \<and> fst (millis s') = fst (millis s) + of_nat d"
proof -
  have "delayMs h one_tick_per_poll (of_nat d) fuel s \<noteq> None"
    using assms(2) by (rule delayMs_returns) (simp add: elapsed_one_tick)
  then obtain n s' where r: "delayMs h one_tick_per_poll (of_nat d) fuel s = Some (n, s')"
    by auto
  note snd = delayMs_sound [OF r, unfolded elapsed_one_tick]
  have "\<not> n < d"
    using snd(3) of_nat_u32_less [of n d] assms(1) by auto
  moreover have "\<not> d < n"
    using snd(4) by auto
  ultimately have "n = d" by simp
  with r snd(2) show ?thesis by (simp add: millis_value)
qed

text \<open>
  C5. \<^verbatim>\<open>delayMs(d)\<close> captures \<open>start = millis()\<close> and returns at the first poll at
  which \<open>millis() - start\<close>, subtracted modulo \<open>2 ^ 32\<close>, is no longer below \<open>d\<close>: at
  the return the condition fails, at every earlier poll it held, and the loop returns
  as soon as some poll within the fuel sees it fail. On the deterministic clock, one
  tick between consecutive polls, the delay returns after exactly \<open>d\<close> iterations with
  the counter \<open>d\<close> ticks further, from every starting value of the counter, so also
  when the counter wraps during the wait, and for every \<open>d\<close> below \<open>2 ^ 32\<close>, which
  covers every \<open>d\<close> up to half the range.
\<close>

theorem delayMs_returns_at_first_reach:
  "(delayMs h env ms fuel s = Some (n, s') \<longrightarrow>
      n \<le> fuel
      \<and> fst (millis s') = fst (millis s) + of_nat (elapsed env n)
      \<and> \<not> (fst (millis s') - fst (millis s) < ms)
      \<and> (\<forall>j<n. fst (millis s) + of_nat (elapsed env j) - fst (millis s) < ms))
   \<and> (k \<le> fuel \<and> \<not> (fst (millis s) + of_nat (elapsed env k) - fst (millis s) < ms)
        \<longrightarrow> delayMs h env ms fuel s \<noteq> None)
   \<and> (d < 2 ^ 32 \<and> d \<le> fuel \<longrightarrow>
        (\<exists>s'. delayMs h one_tick_per_poll (of_nat d) fuel s = Some (d, s')
              \<and> fst (millis s') = fst (millis s) + of_nat d))"
  using delayMs_sound [of h env ms fuel s n s'] delayMs_returns [of k fuel env ms h s]
    delayMs_one_tick [of d fuel h s]
  by (simp add: millis_value)

text \<open>
  A delay of 5 ms started two ticks before the counter wraps: it returns after 5
  iterations with the counter at 3; after 2 ticks the condition still holds.
\<close>

theorem delayMs_returns_at_first_reach_witness:
  "(5 :: nat) < 2 ^ 32 \<and> (5 :: nat) \<le> 8
   \<and> \<not> (fst (millis near_wrap) + of_nat (elapsed one_tick_per_poll 5) - fst (millis near_wrap)
          < (5 :: u32))
   \<and> delayMs stm32g4xx one_tick_per_poll 5 8 near_wrap
       = Some (5, snd (the (delayMs stm32g4xx one_tick_per_poll 5 8 near_wrap)))
   \<and> fst (millis (snd (the (delayMs stm32g4xx one_tick_per_poll 5 8 near_wrap)))) = 3
   \<and> (2 :: nat) < 5
   \<and> fst (millis near_wrap) + of_nat (elapsed one_tick_per_poll 2) - fst (millis near_wrap)
          < (5 :: u32)"
proof -
  let ?r = "delayMs stm32g4xx one_tick_per_poll 5 8 near_wrap"
  have el: "\<not> (fst (millis near_wrap) + of_nat (elapsed one_tick_per_poll 5)
                 - fst (millis near_wrap) < (5 :: u32))"
    by (simp add: elapsed_one_tick)
  have "\<exists>s'. ?r = Some (5, s') \<and> fst (millis s') = fst (millis near_wrap) + 5"
    using delayMs_returns_at_first_reach
            [where h = stm32g4xx and d = 5 and fuel = 8 and s = near_wrap]
    by simp
  then have r: "?r = Some (5, snd (the ?r))"
    and m: "fst (millis (snd (the ?r))) = fst (millis near_wrap) + 5"
    by auto
  have nw: "fst (millis near_wrap) = 0xFFFFFFFE"
    by (simp add: millis_value near_wrap_def hw_set_def)
  have "\<forall>j<5. fst (millis near_wrap) + of_nat (elapsed one_tick_per_poll j)
                 - fst (millis near_wrap) < (5 :: u32)"
    using delayMs_returns_at_first_reach
            [where h = stm32g4xx and env = one_tick_per_poll and ms = 5 and fuel = 8
               and s = near_wrap and n = 5 and s' = "snd (the ?r)"] r
    by simp
  then have "fst (millis near_wrap) + of_nat (elapsed one_tick_per_poll 2)
                 - fst (millis near_wrap) < (5 :: u32)"
    by simp
  with el r m nw show ?thesis by simp
qed

text \<open>
  C9. For every state, every hardware schedule and any fuel, \<^verbatim>\<open>delayMs(0)\<close> and
  \<^verbatim>\<open>delayUs(0)\<close> return with zero iterations of the loop: no unsigned difference is
  below 0, so the condition is false the first time it is evaluated and a zero
  duration never blocks.
\<close>

theorem delay_zero_returns_at_first_poll:
  "map_option fst (delayMs h env 0 fuel s) = Some 0
   \<and> map_option fst (delayUs h e0 uenv 0 fuel s) = Some 0"
  by (cases fuel) (simp_all add: delayMs_def delayUs_def split: prod.splits)

section \<open>Reset, suspend and resume\<close>

text \<open>
  C7. \<^verbatim>\<open>UPTIME_Reset\<close> stores 0 to the millisecond counter, then sets the timer's bit
  of the reset register (asserting the reset line) and then clears it (releasing the
  line), in that order. A reset with the counter at 0 leaves it at 0; after \<open>N\<close> ticks
  a reset makes \<^verbatim>\<open>millis()\<close> return 0, and the next interrupt makes it return 1.
\<close>

theorem Reset_zeroes_then_pulses_reset_line:
  "mem (UPTIME_Reset h s) uptime_ms_cnt = 0
   \<and> accesses_since s (UPTIME_Reset h s)
       = [Wr uptime_ms_cnt 0,
          Rd RCC_APB1RSTR1 (mem s RCC_APB1RSTR1),
          Wr RCC_APB1RSTR1 (mem s RCC_APB1RSTR1 OR RCC_APB1RSTR1_LPTIM1RST h),
          Rd RCC_APB1RSTR1 (mem s RCC_APB1RSTR1 OR RCC_APB1RSTR1_LPTIM1RST h),
          Wr RCC_APB1RSTR1 ((mem s RCC_APB1RSTR1 OR RCC_APB1RSTR1_LPTIM1RST h)
                              AND NOT (RCC_APB1RSTR1_LPTIM1RST h))]
   \<and> (mem s RCC_APB1RSTR1 OR RCC_APB1RSTR1_LPTIM1RST h) AND RCC_APB1RSTR1_LPTIM1RST h
       = RCC_APB1RSTR1_LPTIM1RST h
   \<and> mem (UPTIME_Reset h s) RCC_APB1RSTR1 AND RCC_APB1RSTR1_LPTIM1RST h = 0
   \<and> (mem s uptime_ms_cnt = 0 \<longrightarrow> fst (millis (UPTIME_Reset h s)) = 0)
   \<and> fst (millis (UPTIME_Reset h (irqs h N s))) = 0
   \<and> fst (millis (LPTIM1_IRQHandler h (UPTIME_Reset h (irqs h N s)))) = 1"
  by (simp add: Reset_mem Reset_trace accesses_since_def millis_value handler_mem
        or_and_mask or_clear_mask)

text \<open>A reset of the all-zero state, and a reset three ticks after 41 ms.\<close>

theorem Reset_zeroes_then_pulses_reset_line_witness:
  "mem zeroed uptime_ms_cnt = 0 \<and> fst (millis (UPTIME_Reset stm32g4xx zeroed)) = 0
   \<and> fst (millis (UPTIME_Reset stm32g4xx (irqs stm32g4xx 3 pending))) = 0
   \<and> fst (millis (LPTIM1_IRQHandler stm32g4xx
                    (UPTIME_Reset stm32g4xx (irqs stm32g4xx 3 pending)))) = 1"
  using Reset_zeroes_then_pulses_reset_line [where h = stm32g4xx and s = zeroed and N = 0]
    Reset_zeroes_then_pulses_reset_line [where h = stm32g4xx and s = pending and N = 3]
  by (simp add: zeroed_def)

text \<open>
  C8. \<^verbatim>\<open>UPTIME_Suspend\<close> and \<^verbatim>\<open>UPTIME_Resume\<close> access the control register of the
  timer and nothing else: every other location, the millisecond counter and the
  hardware counter among them, and the interrupt controller keep their values, so
  \<^verbatim>\<open>millis()\<close> returns the same value before and after. Suspend clears the bits of
  \<^verbatim>\<open>LPTIM_CR_ENABLE\<close> and leaves every other bit of the register; resume sets the
  enable bit and then, with a second store, the counter-start bit.
\<close>

theorem Suspend_Resume_touch_only_control_bits:
  "(\<forall>l. l \<noteq> LPTIM1_CR \<longrightarrow> mem (UPTIME_Suspend h s) l = mem s l)
   \<and> (\<forall>l. l \<noteq> LPTIM1_CR \<longrightarrow> mem (UPTIME_Resume h s) l = mem s l)
   \<and> nvic_lptim1 (UPTIME_Suspend h s) = nvic_lptim1 s
   \<and> nvic_lptim1 (UPTIME_Resume h s) = nvic_lptim1 s
   \<and> mem (UPTIME_Suspend h s) LPTIM1_CR = mem s LPTIM1_CR AND NOT (LPTIM_CR_ENABLE h)
   \<and> mem (UPTIME_Resume h s) LPTIM1_CR
       = mem s LPTIM1_CR OR LPTIM_CR_ENABLE h OR LPTIM_CR_CNTSTRT h
   \<and> (\<forall>n. bit (mem (UPTIME_Suspend h s) LPTIM1_CR) n
            = (bit (mem s LPTIM1_CR) n \<and> \<not> bit (LPTIM_CR_ENABLE h) n))
   \<and> (\<forall>n. bit (mem (UPTIME_Resume h s) LPTIM1_CR) n
            = (bit (mem s LPTIM1_CR) n \<or> bit (LPTIM_CR_ENABLE h) n \<or> bit (LPTIM_CR_CNTSTRT h) n))
   \<and> accesses_since s (UPTIME_Suspend h s)
       = [Rd LPTIM1_CR (mem s LPTIM1_CR),
          Wr LPTIM1_CR (mem s LPTIM1_CR AND NOT (LPTIM_CR_ENABLE h))]
   \<and> accesses_since s (UPTIME_Resume h s)
       = [Rd LPTIM1_CR (mem s LPTIM1_CR),
          Wr LPTIM1_CR (mem s LPTIM1_CR OR LPTIM_CR_ENABLE h),
          Rd LPTIM1_CR (mem s LPTIM1_CR OR LPTIM_CR_ENABLE h),
          Wr LPTIM1_CR (mem s LPTIM1_CR OR LPTIM_CR_ENABLE h OR LPTIM_CR_CNTSTRT h)]
   \<and> fst (millis (UPTIME_Suspend h s)) = fst (millis s)
   \<and> fst (millis (UPTIME_Resume h s)) = fst (millis s)"
proof -
  have tr1: "trace (UPTIME_Suspend h s) = trace s @ [Rd LPTIM1_CR (mem s LPTIM1_CR),
          Wr LPTIM1_CR (mem s LPTIM1_CR AND NOT (LPTIM_CR_ENABLE h))]"
    by (simp add: UPTIME_Suspend_def clear_bits_simps)
  have tr2: "trace (UPTIME_Resume h s) = trace s @ [Rd LPTIM1_CR (mem s LPTIM1_CR),
          Wr LPTIM1_CR (mem s LPTIM1_CR OR LPTIM_CR_ENABLE h),
          Rd LPTIM1_CR (mem s LPTIM1_CR OR LPTIM_CR_ENABLE h),
          Wr LPTIM1_CR (mem s LPTIM1_CR OR LPTIM_CR_ENABLE h OR LPTIM_CR_CNTSTRT h)]"
    by (simp add: UPTIME_Resume_def set_bits_simps store_simps or.assoc)
  have nv: "nvic_lptim1 (UPTIME_Suspend h s) = nvic_lptim1 s"
     "nvic_lptim1 (UPTIME_Resume h s) = nvic_lptim1 s"
    by (simp_all add: UPTIME_Suspend_def UPTIME_Resume_def clear_bits_simps set_bits_simps)
  show ?thesis
    by (auto simp: Suspend_mem Resume_mem tr1 tr2 nv accesses_since_def millis_value bit_simps
          dest: bit_imp_le_length)
qed

text \<open>
  On the running timer (control register 5: enabled and started, counter 41, hardware
  count 3): suspend leaves 4 in the control register, resume 5, and neither moves the
  counters.
\<close>

theorem Suspend_Resume_touch_only_control_bits_witness:
  "LPTIM1_CNT \<noteq> LPTIM1_CR
   \<and> mem (UPTIME_Suspend stm32g4xx pending) LPTIM1_CNT = 3
   \<and> mem (UPTIME_Resume stm32g4xx pending) LPTIM1_CNT = 3
   \<and> mem (UPTIME_Suspend stm32g4xx pending) uptime_ms_cnt = 41
   \<and> mem (UPTIME_Resume stm32g4xx pending) uptime_ms_cnt = 41
   \<and> mem (UPTIME_Suspend stm32g4xx pending) LPTIM1_CR = 4
   \<and> mem (UPTIME_Resume stm32g4xx pending) LPTIM1_CR = 5"
  using Suspend_Resume_touch_only_control_bits [where h = stm32g4xx and s = pending]
  by (simp add: pending_def stm32g4xx_def)

section \<open>Initialisation and the oscillator\<close>


lemma ready_before_select_append:
  "ready_before_select h xs \<Longrightarrow> ready_before_select h (xs @ ys)"
  by (induction xs) (auto split: if_splits)

lemma hsi_hw_trace: "trace (hsi_hw h b s) = trace s"
  by (simp add: hsi_hw_def hw_set_def)

lemma wait_HSIRDY_trace:
  "wait_HSIRDY h rdy i fuel s = Some s' \<Longrightarrow>
     \<exists>rs. trace s' = trace s @ rs \<and> ready_before_select h rs"
proof (induction fuel arbitrary: i s)
  case 0
  let ?v = "mem (hsi_hw h (rdy i) s) RCC_CR"
  from 0 have v: "?v AND RCC_CR_HSIRDY h \<noteq> 0"
    and s': "s' = snd (load RCC_CR (hsi_hw h (rdy i) s))"
    by (auto simp: load_def split: if_splits)
  have "trace s' = trace s @ [Rd RCC_CR ?v]"
    unfolding s' by (simp add: load_def hsi_hw_trace)
  moreover have "ready_before_select h [Rd RCC_CR ?v]"
    using v by simp
  ultimately show ?case by blast
next
  case (Suc fuel)
  let ?v = "mem (hsi_hw h (rdy i) s) RCC_CR"
  let ?s2 = "snd (load RCC_CR (hsi_hw h (rdy i) s))"
  have tr2: "trace ?s2 = trace s @ [Rd RCC_CR ?v]"
    by (simp add: load_def hsi_hw_trace)
  show ?case
  proof (cases "?v AND RCC_CR_HSIRDY h = 0")
    case False
    with Suc.prems have "s' = ?s2" by (auto simp: load_def)
    moreover have "ready_before_select h [Rd RCC_CR ?v]"
      using False by simp
    ultimately show ?thesis using tr2 by blast
  next
    case True
    with Suc.prems have "wait_HSIRDY h rdy (Suc i) fuel ?s2 = Some s'"
      by (simp add: load_def)
    from Suc.IH [OF this] obtain rs where
      rs: "trace s' = trace ?s2 @ rs" "ready_before_select h rs" by blast
    have "trace s' = trace s @ (Rd RCC_CR ?v # rs)"
      using rs(1) tr2 by simp
    moreover have "ready_before_select h (Rd RCC_CR ?v # rs)"
      using rs(2) by simp
    ultimately show ?thesis by blast
  qed
qed

lemma Init_configure_trace:
  "\<exists>cfg. trace (UPTIME_Init_configure h s) = trace s @ cfg"
  by (simp add: UPTIME_Init_configure_def MODIFY_REG_def set_bits_simps store_simps
        NVIC_EnableIRQ_def load_def)

lemma Init_unfold:
  "UPTIME_Init h rdy fuel s =
     map_option (UPTIME_Init_configure h)
       (if mem s RCC_CR AND RCC_CR_HSION h = 0
        then wait_HSIRDY h rdy 0 fuel
               (set_bits RCC_CR (RCC_CR_HSION h) (snd (load RCC_CR (UPTIME_Reset h s))))
        else Some (snd (load RCC_CR (UPTIME_Reset h s))))"
  by (simp add: UPTIME_Init_def load_def Reset_mem Let_def)

lemma Init_waits_when_off:
  assumes off: "mem s RCC_CR AND RCC_CR_HSION h = 0"
      and ret: "UPTIME_Init h rdy fuel s = Some s'"
  shows "ready_before_select h (accesses_since s s')"
proof -
  let ?s1 = "UPTIME_Reset h s"
  let ?s2 = "snd (load RCC_CR ?s1)"
  let ?s3 = "set_bits RCC_CR (RCC_CR_HSION h) ?s2"
  from ret off obtain w where w: "wait_HSIRDY h rdy 0 fuel ?s3 = Some w"
    and s': "s' = UPTIME_Init_configure h w"
    by (auto simp: Init_unfold)
  from wait_HSIRDY_trace [OF w] obtain rs where
    rs: "trace w = trace ?s3 @ rs" "ready_before_select h rs" by blast
  from Init_configure_trace [of h w] s' obtain cfg where cfg: "trace s' = trace w @ cfg"
    by blast
  obtain pre where pre: "trace ?s3 = trace s @ pre" "\<forall>a\<in>set pre. \<not> is_clock_select a"
    by (simp add: set_bits_simps load_def Reset_trace)
  have "accesses_since s s' = pre @ rs @ cfg"
    unfolding accesses_since_def cfg rs(1) pre(1) by simp
  moreover have "ready_before_select h (pre @ ys)" if "ready_before_select h ys" for ys
    using pre(2) that by (induction pre) auto
  ultimately show ?thesis
    using ready_before_select_append [OF rs(2)] by simp
qed

lemma Init_skips_when_on:
  assumes on: "mem s RCC_CR AND RCC_CR_HSION h \<noteq> 0"
  shows "UPTIME_Init h rdy fuel s
           = Some (UPTIME_Init_configure h (snd (load RCC_CR (UPTIME_Reset h s))))"
  using on by (simp add: Init_unfold)

lemma wait_HSIRDY_returns:
  "n \<le> fuel \<Longrightarrow> rdy (i + n) \<Longrightarrow> RCC_CR_HSIRDY h \<noteq> 0 \<Longrightarrow> wait_HSIRDY h rdy i fuel s \<noteq> None"
proof (induction fuel arbitrary: i s n)
  case 0
  then have "mem (hsi_hw h (rdy i) s) RCC_CR AND RCC_CR_HSIRDY h = RCC_CR_HSIRDY h"
    by (simp add: hsi_hw_def hw_set_def or_and_mask)
  with 0 show ?case by (simp add: load_def)
next
  case (Suc fuel)
  show ?case
  proof (cases n)
    case 0
    with Suc.prems
    have "mem (hsi_hw h (rdy i) s) RCC_CR AND RCC_CR_HSIRDY h = RCC_CR_HSIRDY h"
      by (simp add: hsi_hw_def hw_set_def or_and_mask)
    with Suc.prems show ?thesis by (simp add: load_def)
  next
    case (Suc n')
    with Suc.prems have "wait_HSIRDY h rdy (Suc i) fuel (snd (load RCC_CR (hsi_hw h (rdy i) s))) \<noteq> None"
      by (intro Suc.IH [where n = n']) simp_all
    then show ?thesis by (simp add: load_def)
  qed
qed

lemma wait_HSIRDY_blocks:
  "\<forall>j\<le>fuel. \<not> rdy (i + j) \<Longrightarrow> mem s RCC_CR AND RCC_CR_HSIRDY h = 0
     \<Longrightarrow> wait_HSIRDY h rdy i fuel s = None"
proof (induction fuel arbitrary: i s)
  case 0
  then show ?case by (simp add: hsi_hw_def load_def)
next
  case (Suc fuel)
  from Suc.prems(1) have now: "\<not> rdy i" by (metis add.right_neutral le0)
  have later: "\<forall>j\<le>fuel. \<not> rdy (Suc i + j)"
    using Suc.prems(1) by (metis Suc_le_mono add_Suc_shift)
  have "wait_HSIRDY h rdy (Suc i) fuel (snd (load RCC_CR s)) = None"
    using later Suc.prems(2) by (intro Suc.IH) (simp_all add: load_def)
  with now Suc.prems(2) show ?case by (simp add: hsi_hw_def load_def)
qed

lemma and_mask_or: "r AND m = m \<Longrightarrow> (r OR x) AND m = (m :: u32)"
proof -
  assume a: "r AND m = m"
  have "(r OR x) AND m = (r AND m) OR (x AND m)"
    by (rule bit_word_eqI) (auto simp: bit_simps)
  also have "\<dots> = m OR (x AND m)" using a by simp
  also have "\<dots> = m" by (rule bit_word_eqI) (auto simp: bit_simps)
  finally show ?thesis .
qed

lemma wait_HSIRDY_keeps_bits:
  "mem s RCC_CR AND m = m \<Longrightarrow> wait_HSIRDY h rdy i fuel s = Some s'
     \<Longrightarrow> mem s' RCC_CR AND m = m"
proof (induction fuel arbitrary: i s)
  case 0
  let ?s1 = "hsi_hw h (rdy i) s"
  have k: "mem ?s1 RCC_CR AND m = m"
    using "0.prems"(1) by (simp add: hsi_hw_def hw_set_def and_mask_or)
  from "0.prems"(2) have "s' = snd (load RCC_CR ?s1)"
    by (auto simp: load_def split: if_splits)
  with k show ?case by (simp add: load_def)
next
  case (Suc fuel)
  let ?s1 = "hsi_hw h (rdy i) s"
  let ?s2 = "snd (load RCC_CR ?s1)"
  have k: "mem ?s2 RCC_CR AND m = m"
    using Suc.prems(1) by (simp add: hsi_hw_def hw_set_def and_mask_or load_def)
  show ?case
  proof (cases "mem ?s1 RCC_CR AND RCC_CR_HSIRDY h = 0")
    case False
    with Suc.prems(2) have "s' = ?s2" by (auto simp: load_def)
    with k show ?thesis by simp
  next
    case True
    with Suc.prems(2) have "wait_HSIRDY h rdy (Suc i) fuel ?s2 = Some s'"
      by (simp add: load_def)
    from Suc.IH [OF k this] show ?thesis .
  qed
qed

lemma Init_configure_RCC_CR:
  "mem (UPTIME_Init_configure h s) RCC_CR = mem s RCC_CR"
  by (simp add: UPTIME_Init_configure_def MODIFY_REG_def set_bits_simps store_simps
        NVIC_EnableIRQ_def load_def)

lemma Init_sets_HSION_when_off:
  assumes off: "mem s RCC_CR AND RCC_CR_HSION h = 0"
      and ret: "UPTIME_Init h rdy fuel s = Some s'"
  shows "take 8 (accesses_since s s')
           = [Wr uptime_ms_cnt 0,
              Rd RCC_APB1RSTR1 (mem s RCC_APB1RSTR1),
              Wr RCC_APB1RSTR1 (mem s RCC_APB1RSTR1 OR RCC_APB1RSTR1_LPTIM1RST h),
              Rd RCC_APB1RSTR1 (mem s RCC_APB1RSTR1 OR RCC_APB1RSTR1_LPTIM1RST h),
              Wr RCC_APB1RSTR1 ((mem s RCC_APB1RSTR1 OR RCC_APB1RSTR1_LPTIM1RST h)
                                  AND NOT (RCC_APB1RSTR1_LPTIM1RST h)),
              Rd RCC_CR (mem s RCC_CR),
              Rd RCC_CR (mem s RCC_CR),
              Wr RCC_CR (mem s RCC_CR OR RCC_CR_HSION h)]"
    and "ready_before_select h (drop 8 (accesses_since s s'))"
    and "mem s' RCC_CR AND RCC_CR_HSION h = RCC_CR_HSION h"
proof -
  let ?s1 = "UPTIME_Reset h s"
  let ?s2 = "snd (load RCC_CR ?s1)"
  let ?s3 = "set_bits RCC_CR (RCC_CR_HSION h) ?s2"
  let ?pre = "[Wr uptime_ms_cnt 0,
              Rd RCC_APB1RSTR1 (mem s RCC_APB1RSTR1),
              Wr RCC_APB1RSTR1 (mem s RCC_APB1RSTR1 OR RCC_APB1RSTR1_LPTIM1RST h),
              Rd RCC_APB1RSTR1 (mem s RCC_APB1RSTR1 OR RCC_APB1RSTR1_LPTIM1RST h),
              Wr RCC_APB1RSTR1 ((mem s RCC_APB1RSTR1 OR RCC_APB1RSTR1_LPTIM1RST h)
                                  AND NOT (RCC_APB1RSTR1_LPTIM1RST h)),
              Rd RCC_CR (mem s RCC_CR),
              Rd RCC_CR (mem s RCC_CR),
              Wr RCC_CR (mem s RCC_CR OR RCC_CR_HSION h)]"
  from ret off obtain w where w: "wait_HSIRDY h rdy 0 fuel ?s3 = Some w"
    and s': "s' = UPTIME_Init_configure h w"
    by (auto simp: Init_unfold)
  from wait_HSIRDY_trace [OF w] obtain rs where
    rs: "trace w = trace ?s3 @ rs" "ready_before_select h rs" by blast
  from Init_configure_trace [of h w] s' obtain cfg where cfg: "trace s' = trace w @ cfg"
    by blast
  have pre: "trace ?s3 = trace s @ ?pre"
    by (simp add: set_bits_simps load_def Reset_trace Reset_mem)
  have acc: "accesses_since s s' = ?pre @ rs @ cfg"
    unfolding accesses_since_def cfg rs(1) pre by simp
  show "take 8 (accesses_since s s') = ?pre"
    unfolding acc by simp
  show "ready_before_select h (drop 8 (accesses_since s s'))"
    unfolding acc using ready_before_select_append [OF rs(2), of cfg] by simp
  have m3: "mem ?s3 RCC_CR AND RCC_CR_HSION h = RCC_CR_HSION h"
    by (simp add: set_bits_simps store_simps load_def Reset_mem or_and_mask)
  from wait_HSIRDY_keeps_bits [OF m3 w] show "mem s' RCC_CR AND RCC_CR_HSION h = RCC_CR_HSION h"
    unfolding s' by (simp add: Init_configure_RCC_CR)
qed

lemma Init_on_reads:
  "mem s RCC_CR AND RCC_CR_HSION h \<noteq> 0 \<Longrightarrow>
   count_RCC_CR_reads (accesses_since s (the (UPTIME_Init h rdy fuel s))) = 1"
  by (simp add: Init_skips_when_on accesses_since_def UPTIME_Init_configure_def MODIFY_REG_def
        set_bits_simps store_simps NVIC_EnableIRQ_def load_def Reset_trace Reset_mem)

text \<open>
  C6. The claim reads: for every initial hardware state, \<^verbatim>\<open>UPTIME_Init\<close> selects the
  oscillator as the timer's clock only after it has read the ready flag as set. The
  source guards the wait with \<^verbatim>\<open>if(!(RCC -> CR & RCC_CR_HSION))\<close>, so this holds when
  the oscillator-on bit is clear at entry. Then the function sets the bit: after the
  reset and the test of the bit, it loads \<^verbatim>\<open>RCC->CR\<close> and stores it back with
  \<^verbatim>\<open>RCC_CR_HSION\<close> set, and the bit is set when the function returns. After that
  store it polls: if it returns, a load of \<^verbatim>\<open>RCC->CR\<close> that saw the ready flag
  follows the store and precedes the store to \<^verbatim>\<open>RCC->CCIPR\<close>; it returns once the
  flag is raised within the fuel, and it is still polling as long as the flag is not
  raised. When the oscillator-on bit is already set at entry, the function does not
  wait: it returns at once, with the test of the on bit as its only load of
  \<^verbatim>\<open>RCC->CR\<close>, whatever the ready flag is.
\<close>

theorem Init_waits_for_ready_only_if_oscillator_was_off:
  "(mem s RCC_CR AND RCC_CR_HSION h = 0 \<and> UPTIME_Init h rdy fuel s = Some s'
      \<longrightarrow> take 8 (accesses_since s s')
            = [Wr uptime_ms_cnt 0,
               Rd RCC_APB1RSTR1 (mem s RCC_APB1RSTR1),
               Wr RCC_APB1RSTR1 (mem s RCC_APB1RSTR1 OR RCC_APB1RSTR1_LPTIM1RST h),
               Rd RCC_APB1RSTR1 (mem s RCC_APB1RSTR1 OR RCC_APB1RSTR1_LPTIM1RST h),
               Wr RCC_APB1RSTR1 ((mem s RCC_APB1RSTR1 OR RCC_APB1RSTR1_LPTIM1RST h)
                                   AND NOT (RCC_APB1RSTR1_LPTIM1RST h)),
               Rd RCC_CR (mem s RCC_CR),
               Rd RCC_CR (mem s RCC_CR),
               Wr RCC_CR (mem s RCC_CR OR RCC_CR_HSION h)]
          \<and> ready_before_select h (drop 8 (accesses_since s s'))
          \<and> ready_before_select h (accesses_since s s')
          \<and> mem s' RCC_CR AND RCC_CR_HSION h = RCC_CR_HSION h)
   \<and> (mem s RCC_CR AND RCC_CR_HSION h = 0 \<and> n \<le> fuel \<and> rdy n \<and> RCC_CR_HSIRDY h \<noteq> 0
      \<longrightarrow> UPTIME_Init h rdy fuel s \<noteq> None)
   \<and> (mem s RCC_CR AND RCC_CR_HSION h = 0 \<and> (\<forall>j\<le>fuel. \<not> rdy j)
        \<and> (mem s RCC_CR OR RCC_CR_HSION h) AND RCC_CR_HSIRDY h = 0
      \<longrightarrow> UPTIME_Init h rdy fuel s = None)
   \<and> (mem s RCC_CR AND RCC_CR_HSION h \<noteq> 0
      \<longrightarrow> UPTIME_Init h rdy fuel s
            = Some (UPTIME_Init_configure h (snd (load RCC_CR (UPTIME_Reset h s))))
          \<and> count_RCC_CR_reads (accesses_since s (the (UPTIME_Init h rdy fuel s))) = 1)"
proof -
  let ?s2 = "snd (load RCC_CR (UPTIME_Reset h s))"
  let ?s3 = "set_bits RCC_CR (RCC_CR_HSION h) ?s2"
  have unfold: "UPTIME_Init h rdy fuel s
      = map_option (UPTIME_Init_configure h) (wait_HSIRDY h rdy 0 fuel ?s3)"
    if "mem s RCC_CR AND RCC_CR_HSION h = 0"
    using that by (simp add: Init_unfold)
  have m3: "mem ?s3 RCC_CR = mem s RCC_CR OR RCC_CR_HSION h"
    by (simp add: set_bits_simps store_simps load_def Reset_mem)
  have b: "UPTIME_Init h rdy fuel s \<noteq> None"
    if "mem s RCC_CR AND RCC_CR_HSION h = 0" "n \<le> fuel" "rdy n" "RCC_CR_HSIRDY h \<noteq> 0"
    using wait_HSIRDY_returns [of n fuel rdy 0 h ?s3] that by (simp add: unfold)
  have c: "UPTIME_Init h rdy fuel s = None"
    if "mem s RCC_CR AND RCC_CR_HSION h = 0" "\<forall>j\<le>fuel. \<not> rdy j"
       "(mem s RCC_CR OR RCC_CR_HSION h) AND RCC_CR_HSIRDY h = 0"
    using wait_HSIRDY_blocks [of fuel rdy 0 ?s3 h] that by (simp add: unfold m3)
  from Init_waits_when_off [of s h rdy fuel s'] Init_sets_HSION_when_off [of s h rdy fuel s']
    b c Init_skips_when_on [of s h rdy fuel] Init_on_reads [of s h rdy fuel]
  show ?thesis by blast
qed

text \<open>
  From the all-zero state, with the flag raised before the third poll, the function
  returns with \<^verbatim>\<open>RCC->CR = 0x500\<close> (on and ready), it has stored \<^verbatim>\<open>0x100\<close> to
  \<^verbatim>\<open>RCC->CR\<close> as its eighth access, and the ready flag was read after that and
  before the clock was selected; with the flag never raised it is still polling after
  five polls; called while the oscillator is starting, it returns without waiting.
\<close>

theorem Init_waits_for_ready_only_if_oscillator_was_off_witness:
  "mem zeroed RCC_CR AND RCC_CR_HSION stm32g4xx = 0
   \<and> (2 :: nat) \<le> 4 \<and> ready_at_third_poll 2 \<and> RCC_CR_HSIRDY stm32g4xx \<noteq> 0
   \<and> UPTIME_Init stm32g4xx ready_at_third_poll 4 zeroed
       = Some (the (UPTIME_Init stm32g4xx ready_at_third_poll 4 zeroed))
   \<and> accesses_since zeroed (the (UPTIME_Init stm32g4xx ready_at_third_poll 4 zeroed)) ! 7
       = Wr RCC_CR 0x100
   \<and> ready_before_select stm32g4xx
       (drop 8 (accesses_since zeroed (the (UPTIME_Init stm32g4xx ready_at_third_poll 4 zeroed))))
   \<and> ready_before_select stm32g4xx
       (accesses_since zeroed (the (UPTIME_Init stm32g4xx ready_at_third_poll 4 zeroed)))
   \<and> mem (the (UPTIME_Init stm32g4xx ready_at_third_poll 4 zeroed)) RCC_CR AND 0x100 = 0x100
   \<and> (mem zeroed RCC_CR OR RCC_CR_HSION stm32g4xx) AND RCC_CR_HSIRDY stm32g4xx = 0
   \<and> UPTIME_Init stm32g4xx never_ready 4 zeroed = None
   \<and> mem hsi_starting RCC_CR AND RCC_CR_HSION stm32g4xx \<noteq> 0
   \<and> UPTIME_Init stm32g4xx never_ready 4 hsi_starting \<noteq> None"
proof -
  let ?r = "UPTIME_Init stm32g4xx ready_at_third_poll 4 zeroed"
  have off: "mem zeroed RCC_CR AND RCC_CR_HSION stm32g4xx = 0"
    by (simp add: zeroed_def)
  have rdy: "ready_at_third_poll 2" "RCC_CR_HSIRDY stm32g4xx \<noteq> 0"
    by (simp_all add: ready_at_third_poll_def stm32g4xx_def)
  have "?r \<noteq> None"
    using Init_waits_for_ready_only_if_oscillator_was_off
            [where s = zeroed and h = stm32g4xx and rdy = ready_at_third_poll and fuel = 4
               and n = 2] off rdy
    by simp
  then have r: "?r = Some (the ?r)" by simp
  note ret = Init_waits_for_ready_only_if_oscillator_was_off
            [where s = zeroed and h = stm32g4xx and rdy = ready_at_third_poll and fuel = 4
               and s' = "the ?r"]
  have pre: "take 8 (accesses_since zeroed (the ?r))
      = [Wr uptime_ms_cnt 0, Rd RCC_APB1RSTR1 0, Wr RCC_APB1RSTR1 0x80000000,
         Rd RCC_APB1RSTR1 0x80000000, Wr RCC_APB1RSTR1 0, Rd RCC_CR 0, Rd RCC_CR 0,
         Wr RCC_CR 0x100]"
    using ret off r by (simp add: zeroed_def stm32g4xx_def)
  have "accesses_since zeroed (the ?r) ! 7 = take 8 (accesses_since zeroed (the ?r)) ! 7"
    by simp
  then have st: "accesses_since zeroed (the ?r) ! 7 = Wr RCC_CR 0x100"
    unfolding pre by simp
  have obs: "ready_before_select stm32g4xx (drop 8 (accesses_since zeroed (the ?r)))"
    "ready_before_select stm32g4xx (accesses_since zeroed (the ?r))"
    using ret off r by simp_all
  have fin: "mem (the ?r) RCC_CR AND 0x100 = 0x100"
    using ret off r by (simp add: stm32g4xx_def)
  have nr: "(mem zeroed RCC_CR OR RCC_CR_HSION stm32g4xx) AND RCC_CR_HSIRDY stm32g4xx = 0"
    by (simp add: zeroed_def stm32g4xx_def)
  have blocked: "UPTIME_Init stm32g4xx never_ready 4 zeroed = None"
    using Init_waits_for_ready_only_if_oscillator_was_off
            [where s = zeroed and h = stm32g4xx and rdy = never_ready and fuel = 4] off nr
    by (simp add: never_ready_def)
  have on: "mem hsi_starting RCC_CR AND RCC_CR_HSION stm32g4xx \<noteq> 0"
    by (simp add: hsi_starting_def hw_set_def stm32g4xx_def)
  have skip: "UPTIME_Init stm32g4xx never_ready 4 hsi_starting \<noteq> None"
    using Init_waits_for_ready_only_if_oscillator_was_off
            [where s = hsi_starting and h = stm32g4xx and rdy = never_ready and fuel = 4] on
    by simp
  from off rdy r st obs fin nr blocked on skip show ?thesis by simp
qed

text \<open>
  Called with the oscillator switched on but not yet ready (\<^verbatim>\<open>RCC->CR = 0x100\<close>) and
  a ready flag that never comes, \<^verbatim>\<open>UPTIME_Init\<close> returns, it has selected the timer's
  clock, and no load before that saw the ready flag set.
\<close>

theorem Init_selects_clock_without_ready:
  "UPTIME_Init stm32g4xx never_ready 0 hsi_starting \<noteq> None
   \<and> selects_clock
       (accesses_since hsi_starting (the (UPTIME_Init stm32g4xx never_ready 0 hsi_starting)))
   \<and> \<not> ready_before_select stm32g4xx
          (accesses_since hsi_starting (the (UPTIME_Init stm32g4xx never_ready 0 hsi_starting)))"
proof -
  have on: "mem hsi_starting RCC_CR AND RCC_CR_HSION stm32g4xx \<noteq> 0"
    by (simp add: hsi_starting_def hw_set_def stm32g4xx_def)
  note r = Init_skips_when_on [OF on, of never_ready 0]
  show ?thesis
    unfolding r
    by (simp add: accesses_since_def UPTIME_Init_configure_def MODIFY_REG_def set_bits_simps
          store_simps NVIC_EnableIRQ_def load_def Reset_trace Reset_mem
          hsi_starting_def hw_set_def zeroed_def stm32g4xx_def)
qed

section \<open>Continuity of the microsecond base across the wraparound\<close>

text \<open>
  C10. For every 32-bit counter value \<open>m\<close>, \<open>((m + 1) mod 2 ^ 32) * 1000\<close> and
  \<open>m * 1000 + 1000\<close> agree modulo \<open>2 ^ 32\<close>: each run of the handler moves
  \<open>millis() * 1000\<close>, and with it \<^verbatim>\<open>micros()\<close> at an unchanged hardware count, forward
  by exactly 1000, also when the counter wraps. After \<open>k\<close> ticks the modular
  difference of two \<^verbatim>\<open>micros()\<close> values, which \<^verbatim>\<open>delayUs\<close> compares with its
  argument, is \<open>k * 1000\<close> plus the difference of the hardware counts.
\<close>

theorem micros_base_wrap_continuous:
  "mem (LPTIM1_IRQHandler h s) uptime_ms_cnt * 1000 = mem s uptime_ms_cnt * 1000 + 1000
   \<and> unat (mem (LPTIM1_IRQHandler h s) uptime_ms_cnt * 1000)
       = (unat (mem s uptime_ms_cnt * 1000) + 1000) mod 2 ^ 32
   \<and> ((unat (mem s uptime_ms_cnt) + 1) mod 2 ^ 32 * 1000) mod 2 ^ 32
       = (unat (mem s uptime_ms_cnt) * 1000 + 1000) mod 2 ^ 32
   \<and> fst (micros (LPTIM1_IRQHandler h s)) = fst (micros s) + 1000
   \<and> fst (micros (hw_run h (k, c) s)) - fst (micros s)
       = of_nat k * 1000 + (c - mem s LPTIM1_CNT)"
proof -
  have a: "mem (LPTIM1_IRQHandler h s) uptime_ms_cnt * 1000 = mem s uptime_ms_cnt * 1000 + 1000"
    by (simp add: handler_mem algebra_simps)
  have b: "unat (mem (LPTIM1_IRQHandler h s) uptime_ms_cnt * 1000)
       = (unat (mem s uptime_ms_cnt * 1000) + 1000) mod 2 ^ 32"
    unfolding a by (simp add: unat_word_ariths)
  have c: "((unat (mem s uptime_ms_cnt) + 1) mod 2 ^ 32 * 1000) mod 2 ^ 32
       = (unat (mem s uptime_ms_cnt) * 1000 + 1000) mod 2 ^ 32"
    by (simp add: mod_simps algebra_simps)
  have d: "fst (micros (LPTIM1_IRQHandler h s)) = fst (micros s) + 1000"
    by (simp add: micros_value handler_mem algebra_simps)
  have e: "fst (micros (hw_run h (k, c) s)) - fst (micros s)
       = of_nat k * 1000 + (c - mem s LPTIM1_CNT)"
    using micros_hw_run [of h k c s] micros_value [of s] by (simp add: algebra_simps)
  from a b c d e show ?thesis by blast
qed

end
